theory Spec2Isabelle
  imports Main "HOL-Library.AList" "HOL-Library.List_Lexorder" "HOL-Library.Char_ord"
    "HOL-Library.Sublist"
begin

section \<open>The \<open>mc config host\<close> command (cmd/config-host-main.go)\<close>

text \<open>
  Go strings are byte sequences: a \<^typ>\<open>string\<close> here is the list of the bytes of the Go
  string, \<^const>\<open>length\<close> is Go's \<open>len\<close>, and \<open><\<close> on strings (List_Lexorder over
  Char_ord) is Go's bytewise lexicographic comparison.
\<close>

subsection \<open>Standard library: UTF-8 runes, \<open>fmt\<close> and \<open>strings.TrimSpace\<close>\<close>

text \<open>
  \<open>unicode/utf8\<close>: the number of bytes the decoder consumes for the rune that starts with
  first byte \<open>b\<close> (table \<open>first\<close>: 1 for ASCII and for every invalid first byte), and the
  range the second byte has to lie in (table \<open>acceptRanges\<close>).
\<close>

definition runeWidth :: "nat \<Rightarrow> nat" where
  "runeWidth b =
     (if b < 0x80 then 1
      else if b < 0xC2 then 1
      else if b \<le> 0xDF then 2
      else if b \<le> 0xEF then 3
      else if b \<le> 0xF4 then 4
      else 1)"

definition acceptRange :: "nat \<Rightarrow> nat \<times> nat" where
  "acceptRange b =
     (if b = 0xE0 then (0xA0, 0xBF)
      else if b = 0xED then (0x80, 0x9F)
      else if b = 0xF0 then (0x90, 0xBF)
      else if b = 0xF4 then (0x80, 0x8F)
      else (0x80, 0xBF))"

definition byteIn :: "nat \<times> nat \<Rightarrow> char \<Rightarrow> bool" where
  "byteIn r c = (fst r \<le> (of_char c :: nat) \<and> (of_char c :: nat) \<le> snd r)"

text \<open>
  \<open>utf8.DecodeRuneInString\<close>, the size it returns: an incomplete or ill-formed sequence is
  one rune (\<open>RuneError\<close>) of width 1.
\<close>

fun runeSize :: "string \<Rightarrow> nat" where
  "runeSize [] = 0"
| "runeSize (c # cs) =
     (let b = (of_char c :: nat); n = runeWidth b in
      if n = 1 then 1
      else if length cs < n - 1 then 1
      else if \<not> byteIn (acceptRange b) (cs ! 0) then 1
      else if n = 2 then 2
      else if \<not> byteIn (0x80, 0xBF) (cs ! 1) then 1
      else if n = 3 then 3
      else if \<not> byteIn (0x80, 0xBF) (cs ! 2) then 1
      else 4)"

text \<open>\<open>utf8.RuneCountInString\<close>.\<close>

fun runeCount :: "string \<Rightarrow> nat" where
  "runeCount [] = 0"
| "runeCount (c # cs) = Suc (runeCount (drop (runeSize (c # cs) - 1) cs))"

text \<open>
  \<open>fmt\<close>: width and precision of \<open>%s\<close> count runes. \<open>truncateString\<close> keeps the first
  \<open>prec\<close> runes (\<open>for i := range s { n--; if n < 0 { return s[:i] } }\<close>).
\<close>

fun truncateString :: "nat \<Rightarrow> string \<Rightarrow> string" where
  "truncateString n [] = []"
| "truncateString 0 (c # cs) = []"
| "truncateString (Suc n) (c # cs) =
     (let k = runeSize (c # cs) - 1 in c # take k cs @ truncateString n (drop k cs))"

text \<open>\<open>padString\<close> under the \<open>-\<close> flag: the spaces go to the right of the string.\<close>

definition padString :: "nat \<Rightarrow> string \<Rightarrow> string" where
  "padString wid s = s @ replicate (wid - runeCount s) CHR '' ''"


text \<open>
  \<open>fmt.Sprintf("%-*.*s", wid, prec, s)\<close>: a width or precision that comes as an argument
  and is \<open>tooLarge\<close> (above \<open>1e6\<close>) is not taken: \<open>fmt\<close> writes \<open>%!(BADWIDTH)\<close> or
  \<open>%!(BADPREC)\<close> in its place and formats the string without width or without precision.
\<close>

definition tooLarge :: "nat \<Rightarrow> bool" where
  "tooLarge x = (int x > 1000000)"

definition badWidthString :: string where
  "badWidthString = ''%!(BADWIDTH)''"

definition badPrecString :: string where
  "badPrecString = ''%!(BADPREC)''"

definition sprintf_left_star :: "nat \<Rightarrow> nat \<Rightarrow> string \<Rightarrow> string" where
  "sprintf_left_star wid prec s =
     (if tooLarge wid then badWidthString else []) @
     (if tooLarge prec then badPrecString else []) @
     padString (if tooLarge wid then 0 else wid)
       (if tooLarge prec then s else truncateString prec s)"

text \<open>
  \<open>unicode.IsSpace\<close>, as the UTF-8 encodings of the runes it accepts: tab, LF, VT, FF, CR,
  space, U+0085, U+00A0, U+1680, U+2000 to U+200A, U+2028, U+2029, U+202F, U+205F, U+3000.
  The decoder yields one of these runes exactly when the bytes in front of it are its encoding.
\<close>

definition spaceRunes :: "string list" where
  "spaceRunes =
     [[CHR 0x09], [CHR 0x0A], [CHR 0x0B], [CHR 0x0C], [CHR 0x0D], [CHR 0x20],
      [CHR 0xC2, CHR 0x85], [CHR 0xC2, CHR 0xA0],
      [CHR 0xE1, CHR 0x9A, CHR 0x80],
      [CHR 0xE2, CHR 0x80, CHR 0x80], [CHR 0xE2, CHR 0x80, CHR 0x81],
      [CHR 0xE2, CHR 0x80, CHR 0x82], [CHR 0xE2, CHR 0x80, CHR 0x83],
      [CHR 0xE2, CHR 0x80, CHR 0x84], [CHR 0xE2, CHR 0x80, CHR 0x85],
      [CHR 0xE2, CHR 0x80, CHR 0x86], [CHR 0xE2, CHR 0x80, CHR 0x87],
      [CHR 0xE2, CHR 0x80, CHR 0x88], [CHR 0xE2, CHR 0x80, CHR 0x89],
      [CHR 0xE2, CHR 0x80, CHR 0x8A],
      [CHR 0xE2, CHR 0x80, CHR 0xA8], [CHR 0xE2, CHR 0x80, CHR 0xA9],
      [CHR 0xE2, CHR 0x80, CHR 0xAF],
      [CHR 0xE2, CHR 0x81, CHR 0x9F],
      [CHR 0xE3, CHR 0x80, CHR 0x80]]"

text \<open>Drop leading runes as long as the bytes in front are one of the encodings \<open>es\<close>.\<close>

fun trimRunes :: "string list \<Rightarrow> string \<Rightarrow> string" where
  "trimRunes es [] = []"
| "trimRunes es (c # cs) =
     (case find (\<lambda>e. prefix e (c # cs)) es of
        None \<Rightarrow> c # cs
      | Some e \<Rightarrow> trimRunes es (drop (length e - 1) cs))"

text \<open>
  \<open>strings.TrimLeftFunc(s, unicode.IsSpace)\<close>, and \<open>TrimRightFunc\<close>, which decodes the last
  rune backwards from the end of the string: it is a space exactly when the string ends with
  one of the encodings.
\<close>

definition TrimLeftSpace :: "string \<Rightarrow> string" where
  "TrimLeftSpace s = trimRunes spaceRunes s"

definition TrimRightSpace :: "string \<Rightarrow> string" where
  "TrimRightSpace s = rev (trimRunes (map rev spaceRunes) (rev s))"

text \<open>\<open>strings.TrimSpace(s) = TrimFunc(s, unicode.IsSpace)\<close>: left first, then right.\<close>

definition TrimSpace :: "string \<Rightarrow> string" where
  "TrimSpace s = TrimRightSpace (TrimLeftSpace s)"

subsection \<open>\<open>cli.Args\<close>\<close>

type_synonym Args = "string list"

definition Get :: "Args \<Rightarrow> nat \<Rightarrow> string" where
  "Get a n = (if n < length a then a ! n else [])"

definition First :: "Args \<Rightarrow> string" where
  "First a = Get a 0"

definition Tail :: "Args \<Rightarrow> Args" where
  "Tail a = (if 2 \<le> length a then drop 1 a else [])"

definition Present :: "Args \<Rightarrow> bool" where
  "Present a = (length a \<noteq> 0)"

subsection \<open>Data\<close>

text \<open>
  \<open>hostConfigV8\<close> is declared outside this file; \<open>mainConfigHost\<close> builds it from these
  four fields.
\<close>

record hostConfigV8 =
  URL :: string
  AccessKey :: string
  SecretKey :: string
  API :: string

text \<open>
  A Go \<open>map[string]hostConfigV8\<close>: keys are unique and \<open>range\<close> visits the entries in an
  order Go leaves open. It is an association list with distinct keys (\<open>uniqueAliases\<close>); the
  order of the list is the order of one \<open>range\<close>, so what holds for every such list holds for
  every order. \<open>m[k] = v\<close> is \<^const>\<open>AList.update\<close>, \<open>delete(m, k)\<close> is \<^const>\<open>AList.delete\<close>.
\<close>

type_synonym hostsMap = "(string \<times> hostConfigV8) list"

definition uniqueAliases :: "hostsMap \<Rightarrow> bool" where
  "uniqueAliases hs = distinct (map fst hs)"

record mcConfigV8 =
  Version :: string
  Hosts :: hostsMap

text \<open>\<open>hostMessage\<close>: container for content message structure.\<close>

record hostMessage =
  op :: string
  Status :: string
  Alias :: string
  URL :: string
  AccessKey :: string
  SecretKey :: string
  API :: string

text \<open>
  The ways the command ends the process: \<open>cli.ShowCommandHelpAndExit(ctx, "host", 1)\<close> and
  each \<open>fatalIf\<close> with an error, in the order of the source. All exit with a non-zero code.
\<close>

datatype fatal =
    ShowHelp
  | AddArgCount
  | RemoveArgCount
  | InvalidAlias string
  | InvalidURL string
  | InvalidAccessKey string
  | InvalidSecretKey string
  | UnrecognizedAPI string
  | LoadFailed
  | SaveFailed

text \<open>
  The validators are declared outside this file; the command is modelled for any five
  predicates on strings.
\<close>

record validators =
  isValidAlias :: "string \<Rightarrow> bool"
  isValidHostURL :: "string \<Rightarrow> bool"
  isValidAccessKey :: "string \<Rightarrow> bool"
  isValidSecretKey :: "string \<Rightarrow> bool"
  isValidAPI :: "string \<Rightarrow> bool"

text \<open>
  Modelled from the spec: \<open>isValidAPI\<close> is missing from the sources. The spec (4.1): the
  string "must be one of a fixed enumerated set {S3v4, S3v2}".
\<close>

definition specIsValidAPI :: "string \<Rightarrow> bool" where
  "specIsValidAPI s = (s = ''S3v4'' \<or> s = ''S3v2'')"

text \<open>
  Modelled from the spec: \<open>loadMcConfig\<close>, \<open>saveMcConfig\<close>, \<open>printMsg\<close> and \<open>fatalIf\<close> are
  missing from the sources. The world of one invocation is the persisted document (\<open>None\<close>
  when it cannot be loaded), whether it can be written, and the messages handed to
  \<open>printMsg\<close> so far. Loading returns the whole document, saving rewrites it in full, and a
  failure of either is fatal; a save that fails is taken to fail before it writes.
\<close>

record world =
  config :: "mcConfigV8 option"
  writable :: bool
  printed :: "hostMessage list"

definition loadMcConfig :: "world \<Rightarrow> fatal + mcConfigV8" where
  "loadMcConfig w = (case config w of None \<Rightarrow> Inl LoadFailed | Some c \<Rightarrow> Inr c)"

definition saveMcConfig :: "mcConfigV8 \<Rightarrow> world \<Rightarrow> fatal + world" where
  "saveMcConfig c w = (if writable w then Inr (w\<lparr>config := Some c\<rparr>) else Inl SaveFailed)"

definition printMsg :: "hostMessage \<Rightarrow> world \<Rightarrow> world" where
  "printMsg m w = w\<lparr>printed := printed w @ [m]\<rparr>"

subsection \<open>Rendering a message\<close>




text \<open>
  \<open>JSON\<close>: \<open>json.Marshal\<close> of the message with \<open>Status\<close> set. The result is modelled as the
  members of the JSON object, in order, with their string values before escaping: the
  exported fields under their tags, a field tagged \<open>omitempty\<close> left out when it is the
  empty string; \<open>op\<close> is unexported and never written. Marshalling a struct of strings
  cannot fail, so the \<open>fatalIf\<close> after it never fires.
\<close>

definition omitempty :: "string \<Rightarrow> string \<Rightarrow> (string \<times> string) list" where
  "omitempty name v = (if v = [] then [] else [(name, v)])"

definition JSON :: "hostMessage \<Rightarrow> (string \<times> string) list" where
  "JSON h0 =
     (let h = h0\<lparr>Status := ''success''\<rparr> in
      [(''status'', Status h), (''alias'', Alias h), (''URL'', URL h)] @
      omitempty ''accessKey'' (AccessKey h) @
      omitempty ''secretKey'' (SecretKey h) @
      omitempty ''api'' (API h))"

subsection \<open>Checking the arguments\<close>

text \<open>
  A check returns \<open>None\<close> when it returns, and \<open>Some e\<close> when it ends the process with \<open>e\<close>.
\<close>

definition checkConfigHostAddSyntax :: "validators \<Rightarrow> Args \<Rightarrow> fatal option" where
  "checkConfigHostAddSyntax V args =
     (let tailArgs = Tail args;
          tailsArgsNr = length tailArgs in
      if tailsArgsNr < 4 \<or> tailsArgsNr > 5 then Some AddArgCount
      else
        let alias = Get tailArgs 0;
            url = Get tailArgs 1;
            accessKey = Get tailArgs 2;
            secretKey = Get tailArgs 3;
            api = Get tailArgs 4 in
        if \<not> isValidAlias V alias then Some (InvalidAlias alias)
        else if \<not> isValidHostURL V url then Some (InvalidURL url)
        else if \<not> isValidAccessKey V accessKey then Some (InvalidAccessKey accessKey)
        else if \<not> isValidSecretKey V secretKey then Some (InvalidSecretKey secretKey)
        else if api \<noteq> [] \<and> \<not> isValidAPI V api then Some (UnrecognizedAPI api)
        else None)"

definition checkConfigHostRemoveSyntax :: "validators \<Rightarrow> Args \<Rightarrow> fatal option" where
  "checkConfigHostRemoveSyntax V args =
     (let tailArgs = Tail args in
      if length (Tail args) \<noteq> 1 then Some RemoveArgCount
      else if \<not> isValidAlias V (Get tailArgs 0) then Some (InvalidAlias (Get tailArgs 0))
      else None)"

definition checkConfigHostSyntax :: "validators \<Rightarrow> Args \<Rightarrow> fatal option" where
  "checkConfigHostSyntax V args =
     (if \<not> Present args then Some ShowHelp
      else
        let verb = TrimSpace (First args) in
        if verb = ''add'' then checkConfigHostAddSyntax V args
        else if verb = ''remove'' then checkConfigHostRemoveSyntax V args
        else if verb = ''list'' then None
        else Some ShowHelp)"

subsection \<open>The operations\<close>

text \<open>
  An operation returns how the process ends (\<open>None\<close>: it returns, the command succeeds) and
  the world it leaves.
\<close>

definition addHost :: "string \<Rightarrow> hostConfigV8 \<Rightarrow> world \<Rightarrow> fatal option \<times> world" where
  "addHost alias hostCfgV8 w =
     (case loadMcConfig w of
        Inl e \<Rightarrow> (Some e, w)
      | Inr mcCfgV8 \<Rightarrow>
          (case saveMcConfig (mcCfgV8\<lparr>Hosts := AList.update alias hostCfgV8 (Hosts mcCfgV8)\<rparr>) w of
             Inl e \<Rightarrow> (Some e, w)
           | Inr w' \<Rightarrow>
               (None,
                printMsg \<lparr>op = ''add'', Status = [], Alias = alias,
                          URL = hostConfigV8.URL hostCfgV8,
                          AccessKey = hostConfigV8.AccessKey hostCfgV8,
                          SecretKey = hostConfigV8.SecretKey hostCfgV8,
                          API = hostConfigV8.API hostCfgV8\<rparr> w')))"

definition removeHost :: "string \<Rightarrow> world \<Rightarrow> fatal option \<times> world" where
  "removeHost alias w =
     (case loadMcConfig w of
        Inl e \<Rightarrow> (Some e, w)
      | Inr conf \<Rightarrow>
          (case saveMcConfig (conf\<lparr>Hosts := AList.delete alias (Hosts conf)\<rparr>) w of
             Inl e \<Rightarrow> (Some e, w)
           | Inr w' \<Rightarrow>
               (None,
                printMsg \<lparr>op = ''remove'', Status = [], Alias = alias, URL = [],
                          AccessKey = [], SecretKey = [], API = []\<rparr> w')))"

text \<open>The first loop of \<open>listHosts\<close>: the greatest \<open>len(k)\<close> over the keys, from 0.\<close>

definition maxAliasLen :: "hostsMap \<Rightarrow> nat" where
  "maxAliasLen hs = fold (\<lambda>(k, v) maxAlias. if length k > maxAlias then length k else maxAlias) hs 0"

text \<open>The second loop: one message per entry, in the order of the \<open>range\<close>.\<close>

definition hostMessages :: "hostsMap \<Rightarrow> hostMessage list" where
  "hostMessages hs =
     map (\<lambda>(k, v). \<lparr>op = ''list'', Status = [], Alias = k,
                     URL = hostConfigV8.URL v,
                     AccessKey = hostConfigV8.AccessKey v,
                     SecretKey = hostConfigV8.SecretKey v,
                     API = hostConfigV8.API v\<rparr>) hs"

text \<open>
  \<open>sort.Sort(byAlias(hosts))\<close> with \<open>Less(i, j) = d[i].Alias < d[j].Alias\<close>. \<open>sort.Sort\<close>
  is not stable, and which sorted permutation it returns is open when two aliases are
  equal; the aliases are the keys of a map, so there is one sorted permutation only
  (lemma \<open>sortByAlias_unique\<close>), and insertion sort computes it.
\<close>

definition sortByAlias :: "hostMessage list \<Rightarrow> hostMessage list" where
  "sortByAlias hosts = sort_key Alias hosts"

text \<open>
  The last loop: \<open>host.Alias = fmt.Sprintf("%-*.*s", maxAlias, maxAlias, host.Alias)\<close>,
  then \<open>printMsg(host)\<close>.
\<close>

definition alignAlias :: "nat \<Rightarrow> hostMessage \<Rightarrow> hostMessage" where
  "alignAlias maxAlias host = host\<lparr>Alias := sprintf_left_star maxAlias maxAlias (Alias host)\<rparr>"

definition listHosts :: "world \<Rightarrow> fatal option \<times> world" where
  "listHosts w =
     (case loadMcConfig w of
        Inl e \<Rightarrow> (Some e, w)
      | Inr conf \<Rightarrow>
          (let maxAlias = maxAliasLen (Hosts conf);
               hosts = sortByAlias (hostMessages (Hosts conf)) in
           (None, fold (\<lambda>host. printMsg (alignAlias maxAlias host)) hosts w)))"

text \<open>
  \<open>mainConfigHost\<close>. \<open>setGlobalsFromContext\<close> and the colour theme touch nothing the
  operations read and are left out.
\<close>

definition mainConfigHost :: "validators \<Rightarrow> Args \<Rightarrow> world \<Rightarrow> fatal option \<times> world" where
  "mainConfigHost V ctxArgs w =
     (case checkConfigHostSyntax V ctxArgs of
        Some e \<Rightarrow> (Some e, w)
      | None \<Rightarrow>
          (let cmd = First ctxArgs;
               args = Tail ctxArgs in
           if TrimSpace cmd = ''add'' then
             (let alias = Get args 0;
                  url = Get args 1;
                  accessKey = Get args 2;
                  secretKey = Get args 3;
                  api = (if Get args 4 = [] then ''S3v4'' else Get args 4) in
              addHost alias \<lparr>hostConfigV8.URL = url, hostConfigV8.AccessKey = accessKey,
                              hostConfigV8.SecretKey = secretKey, hostConfigV8.API = api\<rparr> w)
           else if TrimSpace cmd = ''remove'' then removeHost (Get args 0) w
           else if TrimSpace cmd = ''list'' then listHosts w
           else (None, w)))"

subsection \<open>Concrete inputs\<close>

text \<open>
  Validators that accept every non-empty string (and the API names of the spec), the
  credentials of the command's help text, an empty document and one holding \<open>myphotos\<close>.
\<close>

definition V0 :: validators where
  "V0 = \<lparr>isValidAlias = (\<lambda>s. s \<noteq> []), isValidHostURL = (\<lambda>s. s \<noteq> []),
          isValidAccessKey = (\<lambda>s. s \<noteq> []), isValidSecretKey = (\<lambda>s. s \<noteq> []),
          isValidAPI = specIsValidAPI\<rparr>"

definition s3 :: hostConfigV8 where
  "s3 = \<lparr>hostConfigV8.URL = ''https://s3.amazonaws.com'',
         hostConfigV8.AccessKey = ''BKIKJAA5BMMU2RHO6IBB'',
         hostConfigV8.SecretKey = ''V8f1CwQqAcwo80UEIJEjc5gVQUSSx5ohQ9GSrr12'',
         hostConfigV8.API = ''S3v4''\<rparr>"

definition w0 :: world where
  "w0 = \<lparr>config = Some \<lparr>Version = ''8'', Hosts = []\<rparr>, writable = True, printed = []\<rparr>"

definition w1 :: world where
  "w1 = \<lparr>config = Some \<lparr>Version = ''8'', Hosts = [(''myphotos'', s3)]\<rparr>,
          writable = True, printed = []\<rparr>"

definition accel :: hostConfigV8 where
  "accel = s3\<lparr>hostConfigV8.URL := ''https://s3-accelerate.amazonaws.com''\<rparr>"

text \<open>
  A document holding \<open>myphotos\<close> and \<open>accel\<close>, and one whose only alias is the two bytes of
  U+00E9 (a document edited by hand: \<open>add\<close> would ask \<open>isValidAlias\<close> first).
\<close>

definition w2 :: world where
  "w2 = \<lparr>config = Some \<lparr>Version = ''8'', Hosts = [(''myphotos'', s3), (''accel'', accel)]\<rparr>,
          writable = True, printed = []\<rparr>"

definition wE :: world where
  "wE = \<lparr>config = Some \<lparr>Version = ''8'', Hosts = [([CHR 0xC3, CHR 0xA9], s3)]\<rparr>,
          writable = True, printed = []\<rparr>"

section \<open>Properties\<close>

subsection \<open>Rendering\<close>

text \<open>
  C8. For every host message the JSON object has the member \<open>status\<close> with the value
  \<open>success\<close>, always has \<open>alias\<close> and \<open>URL\<close> (with the values of the message), and has
  each of \<open>accessKey\<close>, \<open>secretKey\<close> and \<open>api\<close> exactly when the value is a non-empty
  string, then with that value; no member name occurs twice.
\<close>

theorem JSON_fields:
  "map_of (JSON h) ''status'' = Some ''success'' \<and>
   map_of (JSON h) ''alias'' = Some (Alias h) \<and>
   map_of (JSON h) ''URL'' = Some (URL h) \<and>
   map_of (JSON h) ''accessKey'' = (if AccessKey h = [] then None else Some (AccessKey h)) \<and>
   map_of (JSON h) ''secretKey'' = (if SecretKey h = [] then None else Some (SecretKey h)) \<and>
   map_of (JSON h) ''api'' = (if API h = [] then None else Some (API h)) \<and>
   distinct (map fst (JSON h))"
  by (simp add: JSON_def omitempty_def)



subsection \<open>Checking the arguments\<close>

lemma verb_present: "TrimSpace (First args) = c # cs \<Longrightarrow> Present args"
  by (cases args)
    (auto simp: First_def Get_def Present_def TrimSpace_def TrimLeftSpace_def
      TrimRightSpace_def)

text \<open>
  C7. Under the verb \<open>add\<close> the command ends with the argument-count error exactly when
  the number of trailing arguments is neither 4 nor 5, and under \<open>remove\<close> exactly when it
  is not 1; with a wrong count nothing is dispatched: the world is the one the command
  started in.
\<close>

theorem arg_count:
  "(TrimSpace (First args) = ''add'' \<longrightarrow>
      (fst (mainConfigHost V args w) = Some AddArgCount
         \<longleftrightarrow> length (Tail args) \<noteq> 4 \<and> length (Tail args) \<noteq> 5) \<and>
      (length (Tail args) \<noteq> 4 \<and> length (Tail args) \<noteq> 5
         \<longrightarrow> mainConfigHost V args w = (Some AddArgCount, w))) \<and>
   (TrimSpace (First args) = ''remove'' \<longrightarrow>
      (fst (mainConfigHost V args w) = Some RemoveArgCount \<longleftrightarrow> length (Tail args) \<noteq> 1) \<and>
      (length (Tail args) \<noteq> 1 \<longrightarrow> mainConfigHost V args w = (Some RemoveArgCount, w)))"
proof (intro conjI impI)
  assume v: "TrimSpace (First args) = ''add''"
  then have p: "Present args" by (rule verb_present)
  show "(fst (mainConfigHost V args w) = Some AddArgCount)
         = (length (Tail args) \<noteq> 4 \<and> length (Tail args) \<noteq> 5)"
    using v p
    by (auto simp: mainConfigHost_def checkConfigHostSyntax_def checkConfigHostAddSyntax_def
        addHost_def loadMcConfig_def saveMcConfig_def Let_def
        split: option.splits sum.splits if_splits)
  assume "length (Tail args) \<noteq> 4 \<and> length (Tail args) \<noteq> 5"
  then show "mainConfigHost V args w = (Some AddArgCount, w)"
    using v p
    by (auto simp: mainConfigHost_def checkConfigHostSyntax_def checkConfigHostAddSyntax_def
        Let_def)
next
  assume v: "TrimSpace (First args) = ''remove''"
  then have p: "Present args" by (rule verb_present)
  show "(fst (mainConfigHost V args w) = Some RemoveArgCount) = (length (Tail args) \<noteq> 1)"
    using v p
    by (auto simp: mainConfigHost_def checkConfigHostSyntax_def
        checkConfigHostRemoveSyntax_def removeHost_def loadMcConfig_def saveMcConfig_def
        Let_def split: option.splits sum.splits if_splits)
  assume "length (Tail args) \<noteq> 1"
  then show "mainConfigHost V args w = (Some RemoveArgCount, w)"
    using v p
    by (auto simp: mainConfigHost_def checkConfigHostSyntax_def
        checkConfigHostRemoveSyntax_def Let_def)
qed

theorem arg_count_witness:
  "mainConfigHost V0 [''add'', ''myphotos'', ''https://s3.amazonaws.com''] w0
     = (Some AddArgCount, w0) \<and>
   mainConfigHost V0 [''remove'', ''goodisk'', ''extra''] w0 = (Some RemoveArgCount, w0)"
proof -
  have a: "TrimSpace (First [''add'', ''myphotos'', ''https://s3.amazonaws.com'']) = ''add''"
    by code_simp
  have r: "TrimSpace (First [''remove'', ''goodisk'', ''extra'']) = ''remove''"
    by code_simp
  have la: "length (Tail [''add'', ''myphotos'', ''https://s3.amazonaws.com'']) = 2"
    by (simp add: Tail_def)
  have lr: "length (Tail [''remove'', ''goodisk'', ''extra'']) = 2"
    by (simp add: Tail_def)
  show ?thesis
    using arg_count [of "[''add'', ''myphotos'', ''https://s3.amazonaws.com'']" V0 w0]
      arg_count [of "[''remove'', ''goodisk'', ''extra'']" V0 w0] a r la lr
    by simp
qed

text \<open>
  C2. With \<open>isValidAPI\<close> as the spec describes it, every add invocation whose API argument
  (the fifth trailing argument) is non-empty and is neither \<open>S3v4\<close> nor \<open>S3v2\<close> ends in a
  fatal error and leaves the world as it was: the document is neither loaded nor written
  and nothing is printed. When the count is 5 and the four other arguments are valid, the
  error is the one for the unrecognized API signature.
\<close>

theorem invalid_api_fails:
  assumes "isValidAPI V = specIsValidAPI"
    and "TrimSpace (First args) = ''add''"
    and "Get (Tail args) 4 \<noteq> []"
    and "Get (Tail args) 4 \<noteq> ''S3v4''"
    and "Get (Tail args) 4 \<noteq> ''S3v2''"
  shows "(\<exists>e. mainConfigHost V args w = (Some e, w)) \<and>
         (length (Tail args) = 5 \<and> isValidAlias V (Get (Tail args) 0) \<and>
          isValidHostURL V (Get (Tail args) 1) \<and> isValidAccessKey V (Get (Tail args) 2) \<and>
          isValidSecretKey V (Get (Tail args) 3)
          \<longrightarrow> mainConfigHost V args w = (Some (UnrecognizedAPI (Get (Tail args) 4)), w))"
proof -
  have p: "Present args" using assms(2) by (rule verb_present)
  have c: "checkConfigHostAddSyntax V args \<noteq> None"
    using assms by (simp add: checkConfigHostAddSyntax_def Let_def specIsValidAPI_def)
  have m: "mainConfigHost V args w =
      (case checkConfigHostAddSyntax V args of Some e \<Rightarrow> (Some e, w) | None \<Rightarrow> undefined)"
    using c p assms(2)
    by (auto simp: mainConfigHost_def checkConfigHostSyntax_def Let_def split: option.splits)
  show ?thesis
    using c assms unfolding m
    by (auto simp: checkConfigHostAddSyntax_def Let_def specIsValidAPI_def split: option.splits)
qed

theorem invalid_api_fails_witness:
  "mainConfigHost V0 [''add'', ''myphotos'', ''https://s3.amazonaws.com'',
      ''BKIKJAA5BMMU2RHO6IBB'', ''V8f1CwQqAcwo80UEIJEjc5gVQUSSx5ohQ9GSrr12'', ''s3v4''] w1
     = (Some (UnrecognizedAPI ''s3v4''), w1)"
proof -
  let ?args = "[''add'', ''myphotos'', ''https://s3.amazonaws.com'',
      ''BKIKJAA5BMMU2RHO6IBB'', ''V8f1CwQqAcwo80UEIJEjc5gVQUSSx5ohQ9GSrr12'', ''s3v4'']"
  have v: "isValidAPI V0 = specIsValidAPI" by (simp add: V0_def)
  have a: "TrimSpace (First ?args) = ''add''" by code_simp
  have g: "Get (Tail ?args) 4 = ''s3v4''" by (simp add: Get_def Tail_def)
  show ?thesis
    using invalid_api_fails [of V0 ?args w1, OF v a] g
    by (simp add: Get_def Tail_def V0_def)
qed

subsection \<open>The operations on the document\<close>

text \<open>
  C3. When the document loads and can be written, \<open>remove\<close> of an alias that is not in the
  Hosts mapping returns without error, prints the message of a successful removal, and
  the persisted document is the one that was loaded.
\<close>

theorem remove_absent:
  assumes "config w = Some conf" and "writable w"
    and "alias \<notin> fst ` set (Hosts conf)"
  shows "fst (removeHost alias w) = None \<and>
         config (snd (removeHost alias w)) = Some conf \<and>
         writable (snd (removeHost alias w)) = writable w \<and>
         printed (snd (removeHost alias w)) =
           printed w @ [\<lparr>op = ''remove'', Status = [], Alias = alias, URL = [],
                          AccessKey = [], SecretKey = [], API = []\<rparr>]"
  using assms
  by (simp add: removeHost_def loadMcConfig_def saveMcConfig_def printMsg_def)

theorem remove_absent_witness:
  "fst (removeHost ''goodisk'' w1) = None \<and>
   config (snd (removeHost ''goodisk'' w1)) = config w1 \<and>
   printed (snd (removeHost ''goodisk'' w1)) =
     [\<lparr>op = ''remove'', Status = [], Alias = ''goodisk'', URL = [],
       AccessKey = [], SecretKey = [], API = []\<rparr>]"
  using remove_absent [of w1 "\<lparr>Version = ''8'', Hosts = [(''myphotos'', s3)]\<rparr>" "''goodisk''"]
  by (simp add: w1_def)

text \<open>
  C4. When the document loads and can be written, \<open>add\<close> returns without error and the
  persisted Hosts mapping sends the alias to exactly the given record, whether or not the
  alias was there before, and every other alias to what it had; the aliases are the old
  ones and the new one, and stay unique. The version is untouched.
\<close>

theorem add_upsert:
  assumes "config w = Some conf" and "writable w"
  shows "fst (addHost alias hostCfg w) = None \<and>
         (\<exists>conf'. config (snd (addHost alias hostCfg w)) = Some conf' \<and>
            Version conf' = Version conf \<and>
            map_of (Hosts conf') alias = Some hostCfg \<and>
            (\<forall>k. k \<noteq> alias \<longrightarrow> map_of (Hosts conf') k = map_of (Hosts conf) k) \<and>
            fst ` set (Hosts conf') = insert alias (fst ` set (Hosts conf)) \<and>
            (uniqueAliases (Hosts conf) \<longrightarrow> uniqueAliases (Hosts conf')))"
  using assms
  by (simp add: addHost_def loadMcConfig_def saveMcConfig_def printMsg_def
      update_conv' dom_update uniqueAliases_def distinct_update)

theorem add_upsert_witness:
  "fst (addHost ''myphotos'' (s3\<lparr>hostConfigV8.API := ''S3v2''\<rparr>) w2) = None \<and>
   config (snd (addHost ''myphotos'' (s3\<lparr>hostConfigV8.API := ''S3v2''\<rparr>) w2)) =
     Some \<lparr>Version = ''8'',
           Hosts = [(''myphotos'', s3\<lparr>hostConfigV8.API := ''S3v2''\<rparr>), (''accel'', accel)]\<rparr> \<and>
   uniqueAliases [(''myphotos'', s3\<lparr>hostConfigV8.API := ''S3v2''\<rparr>), (''accel'', accel)]"
proof -
  let ?c = "\<lparr>Version = ''8'', Hosts = [(''myphotos'', s3), (''accel'', accel)]\<rparr>"
  let ?new = "s3\<lparr>hostConfigV8.API := ''S3v2''\<rparr>"
  let ?c' = "\<lparr>Version = ''8'', Hosts = [(''myphotos'', ?new), (''accel'', accel)]\<rparr>"
  have c: "config w2 = Some ?c" and wr: "writable w2" by (simp_all add: w2_def)
  have u: "uniqueAliases (Hosts ?c)" by (simp add: uniqueAliases_def)
  note t = add_upsert [OF c wr, of "''myphotos''" "?new"]
  have 1: "fst (addHost ''myphotos'' ?new w2) = None" using t by (rule conjunct1)
  obtain conf' where 2: "config (snd (addHost ''myphotos'' ?new w2)) = Some conf'"
    and 3: "uniqueAliases (Hosts ?c) \<longrightarrow> uniqueAliases (Hosts conf')"
    using t [THEN conjunct2] by (elim exE conjE)
  have 4: "config (snd (addHost ''myphotos'' ?new w2)) = Some ?c'"
    by (simp add: w2_def addHost_def loadMcConfig_def saveMcConfig_def printMsg_def)
  have "conf' = ?c'" using 2 unfolding 4 by (simp only: option.inject)
  then have "uniqueAliases (Hosts ?c')" using 3 u by (simp only:)
  then have 5: "uniqueAliases [(''myphotos'', ?new), (''accel'', accel)]" by simp
  show ?thesis using 1 4 5 by (intro conjI)
qed

subsection \<open>The verb\<close>

lemma spaceRunes_prefix_free:
  "\<forall>e \<in> set spaceRunes. \<forall>e' \<in> set spaceRunes. prefix e e' \<longrightarrow> e = e'"
  by code_simp

lemma spaceRunes_suffix_free:
  "\<forall>e \<in> set (map rev spaceRunes). \<forall>e' \<in> set (map rev spaceRunes). prefix e e' \<longrightarrow> e = e'"
  by code_simp

lemma spaceRunes_nonempty: "[] \<notin> set spaceRunes"
  by (simp add: spaceRunes_def)

lemma trimRunes_stop:
  assumes "\<And>e. e \<in> set es \<Longrightarrow> \<not> prefix e s"
  shows "trimRunes es s = s"
proof (cases s)
  case Nil
  then show ?thesis by simp
next
  case (Cons c cs)
  have "find (\<lambda>e. prefix e (c # cs)) es = None"
    using assms Cons by (simp add: find_None_iff)
  then show ?thesis using Cons by simp
qed

lemma trimRunes_strip:
  assumes pf: "\<forall>e \<in> set es. \<forall>e' \<in> set es. prefix e e' \<longrightarrow> e = e'"
    and ne: "[] \<notin> set es" and e: "e \<in> set es"
  shows "trimRunes es (e @ s) = trimRunes es s"
proof -
  obtain c e' where ce: "e = c # e'" using ne e by (cases e) auto
  have "find (\<lambda>x. prefix x (c # e' @ s)) es \<noteq> None"
    using e ce by (auto simp: find_None_iff)
  then obtain x where x: "find (\<lambda>x. prefix x (c # e' @ s)) es = Some x" by auto
  then have xs: "x \<in> set es" and xp: "prefix x (e @ s)"
    using ce by (auto simp: find_Some_iff)
  have "prefix x e \<or> prefix e x"
    using xp prefix_same_cases [of x "e @ s" e] by auto
  then have "x = e" using pf xs e by auto
  then show ?thesis using x ce by simp
qed

lemma trimRunes_concat:
  assumes pf: "\<forall>e \<in> set es. \<forall>e' \<in> set es. prefix e e' \<longrightarrow> e = e'"
    and ne: "[] \<notin> set es"
    and stop: "\<And>e. e \<in> set es \<Longrightarrow> \<not> prefix e s"
  shows "set l \<subseteq> set es \<Longrightarrow> trimRunes es (concat l @ s) = s"
proof (induction l)
  case Nil
  show ?case using stop by (simp add: trimRunes_stop)
next
  case (Cons e l)
  then show ?case using trimRunes_strip [OF pf ne, of e "concat l @ s"] by simp
qed

lemma TrimLeftSpace_concat:
  assumes "set l \<subseteq> set spaceRunes" and "\<And>e. e \<in> set spaceRunes \<Longrightarrow> \<not> prefix e s"
  shows "TrimLeftSpace (concat l @ s) = s"
  unfolding TrimLeftSpace_def
  using trimRunes_concat [OF spaceRunes_prefix_free spaceRunes_nonempty assms(2) assms(1)] .

lemma TrimRightSpace_concat:
  assumes "set r \<subseteq> set spaceRunes" and "\<And>e. e \<in> set spaceRunes \<Longrightarrow> \<not> prefix (rev e) (rev s)"
  shows "TrimRightSpace (s @ concat r) = s"
proof -
  have ne: "[] \<notin> set (map rev spaceRunes)" using spaceRunes_nonempty by auto
  have stop: "\<And>e. e \<in> set (map rev spaceRunes) \<Longrightarrow> \<not> prefix e (rev s)"
    using assms(2) by auto
  have sub: "set (map rev (rev r)) \<subseteq> set (map rev spaceRunes)" using assms(1) by auto
  have "trimRunes (map rev spaceRunes) (concat (map rev (rev r)) @ rev s) = rev s"
    using trimRunes_concat [OF spaceRunes_suffix_free ne stop sub] .
  then show ?thesis by (simp add: TrimRightSpace_def rev_concat)
qed

lemma verb_not_space:
  assumes "verb \<in> {''add'', ''remove'', ''list''}" and "e \<in> set spaceRunes"
  shows "\<not> prefix e (verb @ t)" and "\<not> prefix (rev e) (rev verb)"
  using assms by (auto simp: spaceRunes_def)

lemma TrimSpace_verb:
  assumes "set l \<subseteq> set spaceRunes" and "set r \<subseteq> set spaceRunes"
    and "verb \<in> {''add'', ''remove'', ''list''}"
  shows "TrimSpace (concat l @ verb @ concat r) = verb"
proof -
  have "TrimLeftSpace (concat l @ verb @ concat r) = verb @ concat r"
    using assms(1) verb_not_space(1) [OF assms(3)] by (rule TrimLeftSpace_concat)
  moreover have "TrimRightSpace (verb @ concat r) = verb"
    using assms(2) verb_not_space(2) [OF assms(3)] by (rule TrimRightSpace_concat)
  ultimately show ?thesis by (simp add: TrimSpace_def)
qed

lemma mainConfigHost_verb:
  assumes "TrimSpace a = TrimSpace b"
  shows "mainConfigHost V (a # rest) w = mainConfigHost V (b # rest) w"
  using assms
  by (simp add: mainConfigHost_def checkConfigHostSyntax_def checkConfigHostAddSyntax_def
      checkConfigHostRemoveSyntax_def First_def Get_def Tail_def Present_def Let_def)

lemma dispatch_list:
  assumes "TrimSpace a = ''list''"
  shows "mainConfigHost V (a # rest) w = listHosts w"
  using assms
  by (simp add: mainConfigHost_def checkConfigHostSyntax_def First_def Get_def Present_def)

lemma dispatch_remove:
  assumes "TrimSpace a = ''remove''" and "isValidAlias V k"
  shows "mainConfigHost V [a, k] w = removeHost k w"
  using assms
  by (simp add: mainConfigHost_def checkConfigHostSyntax_def checkConfigHostRemoveSyntax_def
      First_def Get_def Tail_def Present_def)

lemma dispatch_add:
  assumes "TrimSpace a = ''add''"
    and "isValidAlias V k" and "isValidHostURL V url"
    and "isValidAccessKey V accessKey" and "isValidSecretKey V secretKey"
    and "length opt \<le> 1" and "Get opt 0 = [] \<or> isValidAPI V (Get opt 0)"
  shows "mainConfigHost V (a # k # url # accessKey # secretKey # opt) w =
           addHost k
             \<lparr>hostConfigV8.URL = url, hostConfigV8.AccessKey = accessKey,
              hostConfigV8.SecretKey = secretKey,
              hostConfigV8.API = (if Get opt 0 = [] then ''S3v4'' else Get opt 0)\<rparr> w"
proof -
  have g: "Get (k # url # accessKey # secretKey # opt) 4 = Get opt 0"
    by (simp add: Get_def)
  have n: "length (Tail (a # k # url # accessKey # secretKey # opt)) = 4 + length opt"
    by (simp add: Tail_def)
  have t: "Tail (a # k # url # accessKey # secretKey # opt) = k # url # accessKey # secretKey # opt"
    by (simp add: Tail_def)
  have c: "checkConfigHostAddSyntax V (a # k # url # accessKey # secretKey # opt) = None"
    using assms(2-7) unfolding checkConfigHostAddSyntax_def Let_def t g
    by (auto simp: Get_def)
  show ?thesis
    using assms(1) c
    by (simp add: mainConfigHost_def checkConfigHostSyntax_def First_def Present_def Let_def t g)
      (simp add: Get_def)
qed

text \<open>
  C9. The first positional argument is matched after \<open>strings.TrimSpace\<close>. One of the
  verbs with any white space (runes of \<open>unicode.IsSpace\<close>) before and after it dispatches
  the operation of the bare verb: \<open>list\<close> runs \<open>listHosts\<close>, \<open>remove\<close> with a valid alias
  runs \<open>removeHost\<close> on it, \<open>add\<close> with valid arguments runs \<open>addHost\<close> on them (the API
  defaulted to \<open>S3v4\<close>), and the run is the run of the bare verb on the same arguments.
  Two first arguments with the same trimmed form dispatch the same, and a first argument
  whose trimmed form is not exactly \<open>add\<close>, \<open>remove\<close> or \<open>list\<close> gets the help text and
  exit code 1. The match is case-sensitive: \<open>LIST\<close> and \<open>Add\<close> are not verbs.
\<close>

theorem verb_trimmed:
  "(set l \<subseteq> set spaceRunes \<and> set r \<subseteq> set spaceRunes
      \<longrightarrow> mainConfigHost V ((concat l @ ''list'' @ concat r) # rest) w = listHosts w) \<and>
   (set l \<subseteq> set spaceRunes \<and> set r \<subseteq> set spaceRunes \<and> isValidAlias V k
      \<longrightarrow> mainConfigHost V [concat l @ ''remove'' @ concat r, k] w = removeHost k w) \<and>
   (set l \<subseteq> set spaceRunes \<and> set r \<subseteq> set spaceRunes \<and>
    isValidAlias V k \<and> isValidHostURL V url \<and>
    isValidAccessKey V accessKey \<and> isValidSecretKey V secretKey \<and>
    length opt \<le> 1 \<and> (Get opt 0 = [] \<or> isValidAPI V (Get opt 0))
      \<longrightarrow> mainConfigHost V ((concat l @ ''add'' @ concat r) # k # url # accessKey # secretKey # opt) w
            = addHost k
                \<lparr>hostConfigV8.URL = url, hostConfigV8.AccessKey = accessKey,
                 hostConfigV8.SecretKey = secretKey,
                 hostConfigV8.API = (if Get opt 0 = [] then ''S3v4'' else Get opt 0)\<rparr> w) \<and>
   (set l \<subseteq> set spaceRunes \<and> set r \<subseteq> set spaceRunes \<and>
    verb \<in> {''add'', ''remove'', ''list''}
      \<longrightarrow> mainConfigHost V ((concat l @ verb @ concat r) # rest) w
            = mainConfigHost V (verb # rest) w) \<and>
   (TrimSpace a = TrimSpace b
      \<longrightarrow> mainConfigHost V (a # rest) w = mainConfigHost V (b # rest) w) \<and>
   (TrimSpace a \<notin> {''add'', ''remove'', ''list''}
      \<longrightarrow> mainConfigHost V (a # rest) w = (Some ShowHelp, w)) \<and>
   mainConfigHost V ('' list '' # rest) w = listHosts w \<and>
   mainConfigHost V (''LIST'' # rest) w = (Some ShowHelp, w) \<and>
   mainConfigHost V (''Add'' # rest) w = (Some ShowHelp, w)"
proof (intro conjI impI)
  assume h: "set l \<subseteq> set spaceRunes \<and> set r \<subseteq> set spaceRunes"
  then have "TrimSpace (concat l @ ''list'' @ concat r) = ''list''"
    by (intro TrimSpace_verb) simp_all
  then show "mainConfigHost V ((concat l @ ''list'' @ concat r) # rest) w = listHosts w"
    by (rule dispatch_list)
next
  assume h: "set l \<subseteq> set spaceRunes \<and> set r \<subseteq> set spaceRunes \<and> isValidAlias V k"
  then have "TrimSpace (concat l @ ''remove'' @ concat r) = ''remove''"
    by (intro TrimSpace_verb) simp_all
  then show "mainConfigHost V [concat l @ ''remove'' @ concat r, k] w = removeHost k w"
    using h by (simp add: dispatch_remove)
next
  assume h: "set l \<subseteq> set spaceRunes \<and> set r \<subseteq> set spaceRunes \<and>
    isValidAlias V k \<and> isValidHostURL V url \<and>
    isValidAccessKey V accessKey \<and> isValidSecretKey V secretKey \<and>
    length opt \<le> 1 \<and> (Get opt 0 = [] \<or> isValidAPI V (Get opt 0))"
  then have t: "TrimSpace (concat l @ ''add'' @ concat r) = ''add''"
    by (intro TrimSpace_verb) simp_all
  show "mainConfigHost V ((concat l @ ''add'' @ concat r) # k # url # accessKey # secretKey # opt) w
            = addHost k
                \<lparr>hostConfigV8.URL = url, hostConfigV8.AccessKey = accessKey,
                 hostConfigV8.SecretKey = secretKey,
                 hostConfigV8.API = (if Get opt 0 = [] then ''S3v4'' else Get opt 0)\<rparr> w"
    using t h by (intro dispatch_add) simp_all
next
  assume h: "set l \<subseteq> set spaceRunes \<and> set r \<subseteq> set spaceRunes \<and>
    verb \<in> {''add'', ''remove'', ''list''}"
  then have "TrimSpace (concat l @ verb @ concat r) = verb"
    by (simp add: TrimSpace_verb)
  moreover have "TrimSpace verb = verb"
    using h TrimSpace_verb [of "[]" "[]" verb] by simp
  ultimately show "mainConfigHost V ((concat l @ verb @ concat r) # rest) w
            = mainConfigHost V (verb # rest) w"
    by (simp add: mainConfigHost_verb)
next
  assume "TrimSpace a = TrimSpace b"
  then show "mainConfigHost V (a # rest) w = mainConfigHost V (b # rest) w"
    by (rule mainConfigHost_verb)
next
  assume "TrimSpace a \<notin> {''add'', ''remove'', ''list''}"
  then show "mainConfigHost V (a # rest) w = (Some ShowHelp, w)"
    by (simp add: mainConfigHost_def checkConfigHostSyntax_def First_def Get_def Present_def)
next
  have "TrimSpace '' list '' = ''list''" by code_simp
  then show "mainConfigHost V ('' list '' # rest) w = listHosts w"
    by (rule dispatch_list)
next
  have "TrimSpace ''LIST'' = ''LIST''" by code_simp
  then show "mainConfigHost V (''LIST'' # rest) w = (Some ShowHelp, w)"
    by (simp add: mainConfigHost_def checkConfigHostSyntax_def First_def Get_def Present_def)
next
  have "TrimSpace ''Add'' = ''Add''" by code_simp
  then show "mainConfigHost V (''Add'' # rest) w = (Some ShowHelp, w)"
    by (simp add: mainConfigHost_def checkConfigHostSyntax_def First_def Get_def Present_def)
qed

theorem verb_trimmed_witness:
  "mainConfigHost V0 [[CHR 0x09, CHR 0xC2, CHR 0xA0] @ ''remove'' @ '' '', ''goodisk''] w1
     = removeHost ''goodisk'' w1 \<and>
   mainConfigHost V0 [[CHR 0x09, CHR 0xC2, CHR 0xA0] @ ''list'' @ '' ''] w1 = listHosts w1 \<and>
   mainConfigHost V0 [[CHR 0x09, CHR 0xC2, CHR 0xA0] @ ''add'' @ '' '', ''accel'',
       ''https://s3-accelerate.amazonaws.com'', ''BKIKJAA5BMMU2RHO6IBB'',
       ''V8f1CwQqAcwo80UEIJEjc5gVQUSSx5ohQ9GSrr12''] w1
     = addHost ''accel''
         \<lparr>hostConfigV8.URL = ''https://s3-accelerate.amazonaws.com'',
          hostConfigV8.AccessKey = ''BKIKJAA5BMMU2RHO6IBB'',
          hostConfigV8.SecretKey = ''V8f1CwQqAcwo80UEIJEjc5gVQUSSx5ohQ9GSrr12'',
          hostConfigV8.API = ''S3v4''\<rparr> w1 \<and>
   mainConfigHost V0 [[CHR 0x09, CHR 0xC2, CHR 0xA0] @ ''remove'' @ '' '', ''goodisk''] w1
     = mainConfigHost V0 [''remove'', ''goodisk''] w1 \<and>
   mainConfigHost V0 ['' list ''] w1 = mainConfigHost V0 [''list  ''] w1 \<and>
   mainConfigHost V0 [''lists''] w1 = (Some ShowHelp, w1)"
proof -
  let ?l = "[[CHR 0x09], [CHR 0xC2, CHR 0xA0]]"
  let ?r = "['' '']"
  have l: "set ?l \<subseteq> set spaceRunes" and r: "set ?r \<subseteq> set spaceRunes"
    by (simp_all add: spaceRunes_def)
  have cl: "concat ?l = [CHR 0x09, CHR 0xC2, CHR 0xA0]" and cr: "concat ?r = '' ''"
    by simp_all
  have v: "isValidAlias V0 ''goodisk''" "isValidAlias V0 ''accel''"
    "isValidHostURL V0 ''https://s3-accelerate.amazonaws.com''"
    "isValidAccessKey V0 ''BKIKJAA5BMMU2RHO6IBB''"
    "isValidSecretKey V0 ''V8f1CwQqAcwo80UEIJEjc5gVQUSSx5ohQ9GSrr12''"
    by (simp_all add: V0_def)
  have o: "length ([] :: string list) \<le> 1" "Get [] 0 = []" by (simp_all add: Get_def)
  have vb: "''remove'' \<in> {''add'', ''remove'', ''list''}" by simp
  have t: "TrimSpace '' list '' = TrimSpace ''list  ''" by code_simp
  have n: "TrimSpace ''lists'' \<notin> {''add'', ''remove'', ''list''}" by code_simp
  note a = verb_trimmed [where l = ?l and r = ?r and V = V0 and rest = "[]" and w = w1
      and k = "''goodisk''" and verb = "''remove''" and a = "'' list ''" and b = "''list  ''",
      unfolded cl cr]
  note b = verb_trimmed [where l = ?l and r = ?r and V = V0 and rest = "[''goodisk'']"
      and w = w1 and verb = "''remove''" and a = "''lists''", unfolded cl cr]
  note d = verb_trimmed [where V = V0 and rest = "[]" and w = w1 and a = "''lists''"]
  note c = verb_trimmed [where l = ?l and r = ?r and V = V0 and w = w1
      and k = "''accel''" and url = "''https://s3-accelerate.amazonaws.com''"
      and accessKey = "''BKIKJAA5BMMU2RHO6IBB''"
      and secretKey = "''V8f1CwQqAcwo80UEIJEjc5gVQUSSx5ohQ9GSrr12''" and opt = "[]",
      unfolded cl cr]
  have 1: "mainConfigHost V0 [[CHR 0x09, CHR 0xC2, CHR 0xA0] @ ''remove'' @ '' '', ''goodisk''] w1
     = removeHost ''goodisk'' w1"
    using a l r v(1) by blast
  have 2: "mainConfigHost V0 [[CHR 0x09, CHR 0xC2, CHR 0xA0] @ ''list'' @ '' ''] w1 = listHosts w1"
    using a l r by blast
  have 3: "mainConfigHost V0 [[CHR 0x09, CHR 0xC2, CHR 0xA0] @ ''add'' @ '' '', ''accel'',
       ''https://s3-accelerate.amazonaws.com'', ''BKIKJAA5BMMU2RHO6IBB'',
       ''V8f1CwQqAcwo80UEIJEjc5gVQUSSx5ohQ9GSrr12''] w1
     = addHost ''accel''
         \<lparr>hostConfigV8.URL = ''https://s3-accelerate.amazonaws.com'',
          hostConfigV8.AccessKey = ''BKIKJAA5BMMU2RHO6IBB'',
          hostConfigV8.SecretKey = ''V8f1CwQqAcwo80UEIJEjc5gVQUSSx5ohQ9GSrr12'',
          hostConfigV8.API = (if Get [] 0 = [] then ''S3v4'' else Get [] 0)\<rparr> w1"
    using c l r v(2-5) o by blast
  have 4: "mainConfigHost V0 [[CHR 0x09, CHR 0xC2, CHR 0xA0] @ ''remove'' @ '' '', ''goodisk''] w1
     = mainConfigHost V0 [''remove'', ''goodisk''] w1"
    using b l r vb by blast
  have 5: "mainConfigHost V0 ['' list ''] w1 = mainConfigHost V0 [''list  ''] w1"
    using a t by blast
  have 6: "mainConfigHost V0 [''lists''] w1 = (Some ShowHelp, w1)"
    using d n by blast
  have g: "(if Get [] 0 = [] then ''S3v4'' else Get [] 0) = ''S3v4''" by (simp add: Get_def)
  show ?thesis using 1 2 3 [unfolded g] 4 5 6 by (intro conjI)
qed

subsection \<open>Runes and padding\<close>

lemma runeWidth_cases: "runeWidth b = 1 \<or> runeWidth b = 2 \<or> runeWidth b = 3 \<or> runeWidth b = 4"
  by (simp add: runeWidth_def)

lemma runeSize_le: "runeSize (c # cs) \<le> Suc (length cs)"
proof -
  consider "runeWidth (of_char c) = 1" | "runeWidth (of_char c) = 2"
    | "runeWidth (of_char c) = 3" | "runeWidth (of_char c) = 4"
    using runeWidth_cases by blast
  then show ?thesis by cases (simp_all add: Let_def Suc_le_eq)
qed

lemma runeCount_le_length: "runeCount s \<le> length s"
proof (induction s rule: runeCount.induct)
  case 1
  show ?case by simp
next
  case (2 c cs)
  have "runeCount (drop (runeSize (c # cs) - 1) cs) \<le> length cs"
    using 2 by (simp add: le_diff_conv)
  then show ?case by simp
qed

lemma truncateString_id: "runeCount s \<le> n \<Longrightarrow> truncateString n s = s"
proof (induction n s rule: truncateString.induct)
  case (3 n c cs)
  then show ?case by (simp add: Let_def)
qed simp_all

lemma runeCount_ascii: "\<forall>c \<in> set s. (of_char c :: nat) < 128 \<Longrightarrow> runeCount s = length s"
  by (induction s) (simp_all add: runeWidth_def)

lemma sprintf_left_star_pad:
  assumes "length s \<le> n" and "n \<le> 1000000"
  shows "sprintf_left_star n n s = s @ replicate (n - runeCount s) CHR '' ''"
proof -
  have "runeCount s \<le> n" using runeCount_le_length [of s] assms by simp
  then show ?thesis
    using assms(2)
    by (simp add: sprintf_left_star_def tooLarge_def padString_def truncateString_id)
qed

lemma sprintf_left_star_large:
  assumes "1000000 < n"
  shows "sprintf_left_star n n s = badWidthString @ badPrecString @ s"
  using assms by (simp add: sprintf_left_star_def tooLarge_def padString_def)

lemma runeSize_append:
  assumes "t = [] \<or> (of_char (hd t) :: nat) < 128"
  shows "runeSize (c # cs @ t) = runeSize (c # cs)"
proof (cases t)
  case Nil
  then show ?thesis by simp
next
  case (Cons a t')
  then have a: "(of_char a :: nat) < 128" using assms by simp
  have na: "\<not> byteIn (0x80, 0xBF) a" "\<not> byteIn (acceptRange b) a" for b
    using a by (simp_all add: byteIn_def acceptRange_def)
  consider (w1) "runeWidth (of_char c) = 1" | (w2) "runeWidth (of_char c) = 2"
    | (w3) "runeWidth (of_char c) = 3" | (w4) "runeWidth (of_char c) = 4"
    using runeWidth_cases by blast
  then show ?thesis
  proof cases
    case w1
    then show ?thesis by simp
  next
    case w2
    then show ?thesis using na Cons by (cases cs) (simp_all add: Let_def)
  next
    case w3
    show ?thesis
    proof (cases cs)
      case Nil
      then show ?thesis using w3 na Cons by (simp add: Let_def)
    next
      case (Cons d ds)
      then show ?thesis using w3 na \<open>t = a # t'\<close> by (cases ds) (simp_all add: Let_def)
    qed
  next
    case w4
    show ?thesis
    proof (cases cs)
      case Nil
      then show ?thesis using w4 na Cons by (simp add: Let_def)
    next
      case c1: (Cons d ds)
      show ?thesis
      proof (cases ds)
        case Nil
        then show ?thesis using c1 w4 na \<open>t = a # t'\<close> by (simp add: Let_def)
      next
        case c2: (Cons e es)
        then show ?thesis using c1 w4 na \<open>t = a # t'\<close> by (cases es) (simp_all add: Let_def)
      qed
    qed
  qed
qed

lemma runeCount_append:
  assumes "t = [] \<or> (of_char (hd t) :: nat) < 128"
  shows "runeCount (s @ t) = runeCount s + runeCount t"
proof (induction s rule: runeCount.induct)
  case 1
  show ?case by simp
next
  case (2 c cs)
  have k: "runeSize (c # cs) - 1 \<le> length cs" using runeSize_le [of c cs] by simp
  have "runeCount ((c # cs) @ t) = Suc (runeCount (drop (runeSize (c # cs) - 1) (cs @ t)))"
    using runeSize_append [OF assms, of c cs] by simp
  also have "drop (runeSize (c # cs) - 1) (cs @ t) = drop (runeSize (c # cs) - 1) cs @ t"
    using k by simp
  finally show ?case using 2 by simp
qed

lemma runeCount_spaces: "runeCount (replicate n CHR '' '') = n"
  by (simp add: runeCount_ascii)

lemma runeCount_padString: "runeCount s \<le> n \<Longrightarrow> runeCount (padString n s) = n"
proof -
  assume a: "runeCount s \<le> n"
  have "replicate (n - runeCount s) CHR '' '' = [] \<or>
        (of_char (hd (replicate (n - runeCount s) CHR '' '')) :: nat) < 128"
    by (cases "n - runeCount s") simp_all
  then show ?thesis using a by (simp add: padString_def runeCount_append runeCount_spaces)
qed

subsection \<open>Listing\<close>

lemma fold_printMsg:
  "fold (\<lambda>host. printMsg (f host)) hosts w = w\<lparr>printed := printed w @ map f hosts\<rparr>"
  by (induction hosts arbitrary: w) (simp_all add: printMsg_def)

lemma fold_maxAlias:
  "fold (\<lambda>(k, v) maxAlias. if length k > maxAlias then length k else maxAlias) hs a
     = Max (insert a (length ` fst ` set hs))"
proof (induction hs arbitrary: a)
  case Nil
  show ?case by simp
next
  case (Cons p hs)
  let ?F = "\<lambda>(k, v) maxAlias. if length k > maxAlias then length k else maxAlias"
  let ?S = "length ` fst ` set hs"
  obtain k v where p: "p = (k, v)" by (cases p)
  have "(if length k > a then length k else a) = max a (length k)" by (simp add: max_def)
  then have "fold ?F (p # hs) a = fold ?F hs (max a (length k))" using p by simp
  also have "\<dots> = Max (insert (max a (length k)) ?S)" by (rule Cons)
  also have "\<dots> = Max (insert a (insert (length k) ?S))"
    by (cases "hs = []") (simp_all add: max.assoc)
  finally show ?case using p by simp
qed

lemma maxAliasLen_Max: "maxAliasLen hs = Max (insert 0 (length ` fst ` set hs))"
  by (simp add: maxAliasLen_def fold_maxAlias)

lemma maxAliasLen_ge: "k \<in> fst ` set hs \<Longrightarrow> length k \<le> maxAliasLen hs"
  by (simp add: maxAliasLen_Max)

lemma maxAliasLen_le: "\<forall>k \<in> fst ` set hs. length k \<le> n \<Longrightarrow> maxAliasLen hs \<le> n"
  by (simp add: maxAliasLen_Max)

lemma Alias_hostMessages: "map Alias (hostMessages hs) = map fst hs"
  by (induction hs) (auto simp: hostMessages_def)

lemma Alias_sortByAlias: "map Alias (sortByAlias hosts) = sort (map Alias hosts)"
proof -
  have ins: "map f (insort_key f x xs) = insort (f x) (map f xs)" for f :: "'a \<Rightarrow> string" and x xs
    by (induction xs) simp_all
  have "map f (sort_key f xs) = sort (map f xs)" for f :: "'a \<Rightarrow> string" and xs
    by (induction xs) (simp_all add: ins)
  then show ?thesis by (simp add: sortByAlias_def)
qed

lemma sortByAlias_unique:
  assumes "distinct (map Alias hosts)"
    and "set ys = set hosts" and "distinct (map Alias ys)" and "sorted (map Alias ys)"
  shows "sortByAlias hosts = ys"
proof -
  let ?zs = "sortByAlias hosts"
  have inj: "inj_on Alias (set hosts)" using assms(1) by (simp add: distinct_map)
  have "distinct (map Alias ?zs)"
    using assms(1) by (simp add: distinct_map sortByAlias_def)
  moreover have "sorted (map Alias ?zs)" by (simp add: sortByAlias_def)
  moreover have "set (map Alias ?zs) = set (map Alias ys)"
    using assms(2) by (simp add: sortByAlias_def)
  ultimately have "map Alias ?zs = map Alias ys"
    using assms(3,4) by (simp add: sorted_distinct_set_unique)
  moreover have "inj_on Alias (set ?zs \<union> set ys)"
    using inj assms(2) by (simp add: sortByAlias_def)
  ultimately show ?thesis by (simp add: inj_on_map_eq_map)
qed

lemma sortByAlias_strict:
  assumes "uniqueAliases hs"
  shows "sorted_wrt (<) (map Alias (sortByAlias (hostMessages hs)))"
proof -
  have "distinct (sort (map fst hs))" using assms by (simp add: uniqueAliases_def)
  then show ?thesis
    by (simp add: Alias_sortByAlias Alias_hostMessages strict_sorted_iff)
qed

lemma listHosts_printed:
  assumes "config w = Some conf"
  shows "listHosts w =
           (None, w\<lparr>printed := printed w @
              map (alignAlias (maxAliasLen (Hosts conf))) (sortByAlias (hostMessages (Hosts conf)))\<rparr>)"
  using assms by (simp add: listHosts_def loadMcConfig_def fold_printMsg)

lemma hosts_order_irrelevant:
  assumes "uniqueAliases hs" and "uniqueAliases hs'" and "map_of hs' = map_of hs"
  shows "maxAliasLen hs' = maxAliasLen hs"
    and "sortByAlias (hostMessages hs') = sortByAlias (hostMessages hs)"
proof -
  have s: "set hs' = set hs"
    using assms by (simp add: uniqueAliases_def map_of_inject_set)
  then show "maxAliasLen hs' = maxAliasLen hs" by (simp add: maxAliasLen_Max)
  have d: "distinct (map Alias (hostMessages hs'))" "distinct (map Alias (hostMessages hs))"
    using assms by (simp_all add: Alias_hostMessages uniqueAliases_def)
  have "set (hostMessages hs') = set (hostMessages hs)" using s by (simp add: hostMessages_def)
  then have "set (sortByAlias (hostMessages hs)) = set (hostMessages hs')"
    by (simp add: sortByAlias_def)
  moreover have "distinct (map Alias (sortByAlias (hostMessages hs)))"
    using d(2) by (simp add: distinct_map sortByAlias_def)
  moreover have "sorted (map Alias (sortByAlias (hostMessages hs)))"
    by (simp add: sortByAlias_def)
  ultimately show "sortByAlias (hostMessages hs') = sortByAlias (hostMessages hs)"
    using d(1) by (rule sortByAlias_unique [rotated])
qed

lemma pad_less:
  "a < b \<Longrightarrow> \<forall>c \<in> set b. CHR '' '' < c
     \<Longrightarrow> a @ replicate m CHR '' '' < b @ replicate n CHR '' ''"
proof (induction a arbitrary: b m)
  case Nil
  then obtain c r where "b = c # r" by (cases b) auto
  then show ?case using Nil by (cases m) auto
next
  case (Cons x a)
  then obtain y b' where b: "b = y # b'" by (cases b) auto
  then show ?case using Cons by auto
qed

lemma Alias_alignAlias:
  "map Alias (map (alignAlias m) hosts) = map (sprintf_left_star m m) (map Alias hosts)"
  by (simp add: alignAlias_def)

lemma listed_aliases_fmt:
  assumes "config w = Some conf"
  shows "map Alias (drop (length (printed w)) (printed (snd (listHosts w)))) =
         map (sprintf_left_star (maxAliasLen (Hosts conf)) (maxAliasLen (Hosts conf)))
           (sort (map fst (Hosts conf)))"
proof -
  have "map Alias (drop (length (printed w)) (printed (snd (listHosts w)))) =
        map Alias (map (alignAlias (maxAliasLen (Hosts conf)))
          (sortByAlias (hostMessages (Hosts conf))))"
    using assms by (simp add: listHosts_printed)
  then show ?thesis
    by (simp only: Alias_alignAlias Alias_sortByAlias Alias_hostMessages)
qed

lemma listed_aliases:
  assumes "config w = Some conf" and "maxAliasLen (Hosts conf) \<le> 1000000"
  shows "map Alias (drop (length (printed w)) (printed (snd (listHosts w)))) =
         map (\<lambda>k. k @ replicate (maxAliasLen (Hosts conf) - runeCount k) CHR '' '')
           (sort (map fst (Hosts conf)))"
proof -
  have "sprintf_left_star (maxAliasLen (Hosts conf)) (maxAliasLen (Hosts conf)) k =
        k @ replicate (maxAliasLen (Hosts conf) - runeCount k) CHR '' ''"
    if "k \<in> set (sort (map fst (Hosts conf)))" for k
    using that assms(2) by (intro sprintf_left_star_pad maxAliasLen_ge) simp_all
  then show ?thesis
    unfolding listed_aliases_fmt [OF assms(1)] by (intro map_cong) simp_all
qed

lemma listed_aliases_large:
  assumes "config w = Some conf" and "1000000 < maxAliasLen (Hosts conf)"
  shows "map Alias (drop (length (printed w)) (printed (snd (listHosts w)))) =
         map (\<lambda>k. (badWidthString @ badPrecString) @ k) (sort (map fst (Hosts conf)))"
  unfolding listed_aliases_fmt [OF assms(1)]
  using assms(2) by (simp add: sprintf_left_star_large)

lemma append_less: "xs @ a < xs @ b \<longleftrightarrow> a < (b :: string)"
  by (induction xs) simp_all

text \<open>
  C5. For every Hosts mapping (a document that loads, aliases unique) \<open>list\<close> prints one
  entry per alias, in strictly increasing bytewise lexicographic order of the aliases:
  the printed entries are the sorted host messages, each with its alias aligned. The
  aliases as printed, with their padding, are strictly increasing too when no alias
  holds a byte at or below the space. The output is the same for every order in which
  the mapping holds its entries.
\<close>

theorem listHosts_sorted:
  assumes "config w = Some conf" and "uniqueAliases (Hosts conf)"
  shows "printed (snd (listHosts w)) =
           printed w @ map (alignAlias (maxAliasLen (Hosts conf)))
                         (sortByAlias (hostMessages (Hosts conf))) \<and>
         set (sortByAlias (hostMessages (Hosts conf))) = set (hostMessages (Hosts conf)) \<and>
         length (sortByAlias (hostMessages (Hosts conf))) = length (Hosts conf) \<and>
         sorted_wrt (<) (map Alias (sortByAlias (hostMessages (Hosts conf)))) \<and>
         ((\<forall>k \<in> fst ` set (Hosts conf). \<forall>c \<in> set k. CHR '' '' < c) \<longrightarrow>
            sorted_wrt (<)
              (map Alias (drop (length (printed w)) (printed (snd (listHosts w)))))) \<and>
         (\<forall>conf'. uniqueAliases (Hosts conf') \<and> map_of (Hosts conf') = map_of (Hosts conf) \<longrightarrow>
            printed (snd (listHosts (w\<lparr>config := Some conf'\<rparr>))) = printed (snd (listHosts w)))"
proof (intro conjI impI allI)
  show "printed (snd (listHosts w)) =
           printed w @ map (alignAlias (maxAliasLen (Hosts conf)))
                         (sortByAlias (hostMessages (Hosts conf)))"
    using assms(1) by (simp add: listHosts_printed)
  show "set (sortByAlias (hostMessages (Hosts conf))) = set (hostMessages (Hosts conf))"
    by (simp add: sortByAlias_def)
  show "length (sortByAlias (hostMessages (Hosts conf))) = length (Hosts conf)"
    by (simp add: sortByAlias_def hostMessages_def)
  show "sorted_wrt (<) (map Alias (sortByAlias (hostMessages (Hosts conf))))"
    using assms(2) by (rule sortByAlias_strict)
next
  assume sp: "\<forall>k \<in> fst ` set (Hosts conf). \<forall>c \<in> set k. CHR '' '' < c"
  let ?m = "maxAliasLen (Hosts conf)"
  let ?pad = "\<lambda>k. k @ replicate (?m - runeCount k) CHR '' ''"
  let ?bad = "\<lambda>k. (badWidthString @ badPrecString) @ k"
  have st: "sorted_wrt (<) (sort (map fst (Hosts conf)))"
    using assms(2) by (simp add: uniqueAliases_def strict_sorted_iff)
  show "sorted_wrt (<)
      (map Alias (drop (length (printed w)) (printed (snd (listHosts w)))))"
  proof (cases "?m \<le> 1000000")
    case True
    have "sorted_wrt (\<lambda>a b. ?pad a < ?pad b) (sort (map fst (Hosts conf)))"
      using st
    proof (rule sorted_wrt_mono_rel [rotated])
      fix a b
      assume "a \<in> set (sort (map fst (Hosts conf)))"
        and "b \<in> set (sort (map fst (Hosts conf)))" and "a < b"
      then show "?pad a < ?pad b" using sp by (intro pad_less) auto
    qed
    then show ?thesis
      using listed_aliases [OF assms(1) True] by (simp add: sorted_wrt_map)
  next
    case False
    then have large: "1000000 < ?m" by simp
    have "sorted_wrt (\<lambda>a b. ?bad a < ?bad b) (sort (map fst (Hosts conf)))"
      using st by (simp only: append_less)
    then show ?thesis
      unfolding listed_aliases_large [OF assms(1) large] by (simp only: sorted_wrt_map)
  qed
next
  fix conf' :: mcConfigV8
  assume h: "uniqueAliases (Hosts conf') \<and> map_of (Hosts conf') = map_of (Hosts conf)"
  have "config (w\<lparr>config := Some conf'\<rparr>) = Some conf'" by simp
  then show "printed (snd (listHosts (w\<lparr>config := Some conf'\<rparr>))) = printed (snd (listHosts w))"
    using h assms hosts_order_irrelevant [of "Hosts conf" "Hosts conf'"]
    by (simp add: listHosts_printed)
qed

theorem listHosts_sorted_witness:
  "map Alias (sortByAlias (hostMessages [(''myphotos'', s3), (''accel'', accel)]))
     = [''accel'', ''myphotos''] \<and>
   sorted_wrt (<) (map Alias (printed (snd (listHosts w2)))) \<and>
   map Alias (printed (snd (listHosts w2))) = [''accel   '', ''myphotos'']"
proof -
  let ?c = "\<lparr>Version = ''8'', Hosts = [(''myphotos'', s3), (''accel'', accel)]\<rparr>"
  have c: "config w2 = Some ?c" by (simp add: w2_def)
  have u: "uniqueAliases (Hosts ?c)" by (simp add: uniqueAliases_def)
  have sp: "\<forall>k \<in> fst ` set (Hosts ?c). \<forall>c \<in> set k. CHR '' '' < c" by simp
  have p: "drop (length (printed w2)) (printed (snd (listHosts w2))) = printed (snd (listHosts w2))"
    by (simp add: w2_def)
  have 1: "map Alias (sortByAlias (hostMessages [(''myphotos'', s3), (''accel'', accel)]))
     = [''accel'', ''myphotos'']"
    by (simp add: sortByAlias_def hostMessages_def)
  have "sorted_wrt (<) (map Alias (drop (length (printed w2)) (printed (snd (listHosts w2)))))"
    using listHosts_sorted [OF c u] sp by blast
  then have 2: "sorted_wrt (<) (map Alias (printed (snd (listHosts w2))))"
    by (simp only: p)
  have 3: "map Alias (printed (snd (listHosts w2))) = [''accel   '', ''myphotos'']"
    by code_simp
  show ?thesis using 1 2 3 by blast
qed

text \<open>
  C6 (amended). \<open>list\<close> pads each alias with spaces on the right (the \<open>-\<close> flag of the
  format), not on the left: with \<open>maxAlias\<close> the greatest byte length of an alias (and
  no alias beyond the \<open>1e6\<close> bytes that \<open>fmt\<close> takes as a width), the printed alias is
  the alias followed by \<open>maxAlias\<close> minus its rune count spaces, so every printed alias
  counts \<open>maxAlias\<close> runes; when the aliases are ASCII its length is the length of the
  longest alias.
\<close>

theorem listHosts_alias_width:
  assumes "config w = Some conf"
    and "\<forall>k \<in> fst ` set (Hosts conf). length k \<le> 1000000"
  shows "let m = maxAliasLen (Hosts conf);
             out = drop (length (printed w)) (printed (snd (listHosts w))) in
         m = Max (insert 0 (length ` fst ` set (Hosts conf))) \<and>
         map Alias out =
           map (\<lambda>k. k @ replicate (m - runeCount k) CHR '' '') (sort (map fst (Hosts conf))) \<and>
         (\<forall>h \<in> set out. runeCount (Alias h) = m) \<and>
         ((\<forall>k \<in> fst ` set (Hosts conf). \<forall>c \<in> set k. (of_char c :: nat) < 128) \<longrightarrow>
            (\<forall>h \<in> set out. length (Alias h) = m))"
proof -
  let ?m = "maxAliasLen (Hosts conf)"
  let ?out = "drop (length (printed w)) (printed (snd (listHosts w)))"
  let ?pad = "\<lambda>k. k @ replicate (?m - runeCount k) CHR '' ''"
  have al: "map Alias ?out = map ?pad (sort (map fst (Hosts conf)))"
    using assms(1) maxAliasLen_le [OF assms(2)] by (rule listed_aliases)
  have key: "\<exists>k \<in> fst ` set (Hosts conf). Alias h = ?pad k" if hin: "h \<in> set ?out" for h
  proof -
    have "Alias h \<in> set (map Alias ?out)" using hin by simp
    then have "Alias h \<in> ?pad ` set (sort (map fst (Hosts conf)))" unfolding al by simp
    then show ?thesis by auto
  qed
  have r: "runeCount (Alias h) = ?m" if hin: "h \<in> set ?out" for h
  proof -
    obtain k where k: "k \<in> fst ` set (Hosts conf)" "Alias h = ?pad k"
      using key [OF hin] by blast
    have "runeCount k \<le> ?m"
      using maxAliasLen_ge [OF k(1)] runeCount_le_length [of k] by simp
    then show ?thesis using k(2) runeCount_padString [of k ?m] by (simp add: padString_def)
  qed
  have l: "length (Alias h) = ?m"
    if hin: "h \<in> set ?out"
      and asc: "\<forall>k \<in> fst ` set (Hosts conf). \<forall>c \<in> set k. (of_char c :: nat) < 128"
    for h
  proof -
    obtain k where k: "k \<in> fst ` set (Hosts conf)" "Alias h = ?pad k"
      using key [OF hin] by blast
    have "runeCount k = length k" using asc k(1) by (intro runeCount_ascii) blast
    then show ?thesis using k(2) maxAliasLen_ge [OF k(1)] by simp
  qed
  show ?thesis
    unfolding Let_def using al r l maxAliasLen_Max [of "Hosts conf"] by blast
qed

theorem listHosts_alias_width_witness:
  "map Alias (printed (snd (listHosts w2))) = [''accel'' @ ''   '', ''myphotos''] \<and>
   maxAliasLen [(''myphotos'', s3), (''accel'', accel)] = 8"
proof -
  let ?c = "\<lparr>Version = ''8'', Hosts = [(''myphotos'', s3), (''accel'', accel)]\<rparr>"
  have c: "config w2 = Some ?c" by (simp add: w2_def)
  have p: "drop (length (printed w2)) (printed (snd (listHosts w2))) = printed (snd (listHosts w2))"
    by (simp add: w2_def)
  have m: "maxAliasLen (Hosts ?c) = 8"
    by (simp add: maxAliasLen_def)
  have s: "sort (map fst (Hosts ?c)) = [''accel'', ''myphotos'']" by simp
  have rc: "8 - runeCount ''accel'' = 3" "8 - runeCount ''myphotos'' = 0" by code_simp+
  have b: "\<forall>k \<in> fst ` set (Hosts ?c). length k \<le> 1000000" by simp
  have "map Alias (drop (length (printed w2)) (printed (snd (listHosts w2)))) =
           map (\<lambda>k. k @ replicate (maxAliasLen (Hosts ?c) - runeCount k) CHR '' '')
             (sort (map fst (Hosts ?c)))"
    using listHosts_alias_width [OF c b] unfolding Let_def by blast
  then have "map Alias (printed (snd (listHosts w2))) =
      [''accel'' @ replicate 3 CHR '' '', ''myphotos'' @ replicate 0 CHR '' '']"
    unfolding p m s by (simp only: list.map rc)
  then have "map Alias (printed (snd (listHosts w2))) = [''accel'' @ ''   '', ''myphotos'']"
    by (simp add: numeral_3_eq_3)
  then show ?thesis using m by simp
qed

text \<open>
  Against the claim as worded: beside \<open>myphotos\<close>, \<open>accel\<close> is printed with three spaces
  behind it, not in front of it; and the only alias U+00E9, two bytes long, is printed
  three bytes long.
\<close>

theorem listHosts_left_pad_counterexample:
  "map Alias (printed (snd (listHosts w2))) = [''accel   '', ''myphotos''] \<and>
   ''accel   '' \<noteq> ''   accel'' \<and>
   map Alias (printed (snd (listHosts wE))) = [[CHR 0xC3, CHR 0xA9, CHR '' '']] \<and>
   length [CHR 0xC3, CHR 0xA9, CHR '' ''] = 3 \<and>
   length [CHR 0xC3, CHR 0xA9] = 2"
proof -
  have 1: "map Alias (printed (snd (listHosts w2))) = [''accel   '', ''myphotos'']"
    by code_simp
  have 2: "map Alias (printed (snd (listHosts wE))) = [[CHR 0xC3, CHR 0xA9, CHR '' '']]"
    by code_simp
  have 3: "''accel   '' \<noteq> ''   accel''" by simp
  have 4: "length [CHR 0xC3, CHR 0xA9, CHR '' ''] = 3" "length [CHR 0xC3, CHR 0xA9] = 2"
    by simp_all
  show ?thesis using 1 2 3 4 by blast
qed

subsection \<open>Add, then list\<close>

lemma filter_hostMessages:
  assumes "distinct (map fst hs)" and "map_of hs k = Some v"
  shows "filter (\<lambda>h. Alias h = k) (hostMessages hs) =
           [\<lparr>op = ''list'', Status = [], Alias = k, URL = hostConfigV8.URL v,
             AccessKey = hostConfigV8.AccessKey v, SecretKey = hostConfigV8.SecretKey v,
             API = hostConfigV8.API v\<rparr>]"
  using assms
proof (induction hs)
  case Nil
  then show ?case by simp
next
  case (Cons p hs)
  obtain k' v' where p: "p = (k', v')" by (cases p)
  show ?case
  proof (cases "k' = k")
    case True
    then have "k \<notin> fst ` set hs" using Cons.prems(1) p by auto
    then have "filter (\<lambda>h. Alias h = k) (hostMessages hs) = []"
      by (force simp: hostMessages_def filter_empty_conv)
    then show ?thesis using True p Cons.prems(2) by (simp add: hostMessages_def)
  next
    case False
    then show ?thesis using Cons p by (simp add: hostMessages_def)
  qed
qed

lemma TrimSpace_add: "TrimSpace ''add'' = ''add''"
  by code_simp

lemma TrimSpace_list: "TrimSpace ''list'' = ''list''"
  by code_simp

lemma mainConfigHost_list: "mainConfigHost V [''list''] w = listHosts w"
  by (simp add: mainConfigHost_def checkConfigHostSyntax_def First_def Get_def Present_def
      TrimSpace_list)

lemma mainConfigHost_add:
  assumes "isValidAlias V alias" and "isValidHostURL V url"
    and "isValidAccessKey V accessKey" and "isValidSecretKey V secretKey"
    and "opt = [] \<or> (\<exists>api. opt = [api] \<and> (api = [] \<or> isValidAPI V api))"
  shows "mainConfigHost V (''add'' # alias # url # accessKey # secretKey # opt) w =
           addHost alias
             \<lparr>hostConfigV8.URL = url, hostConfigV8.AccessKey = accessKey,
              hostConfigV8.SecretKey = secretKey,
              hostConfigV8.API = (if Get opt 0 = [] then ''S3v4'' else Get opt 0)\<rparr> w"
  using assms
  by (auto simp: mainConfigHost_def checkConfigHostSyntax_def checkConfigHostAddSyntax_def
      First_def Get_def Tail_def Present_def TrimSpace_add Let_def)

text \<open>
  C1. For every valid alias, URL, access key and secret key, with no fifth argument, an
  empty one or a valid API, on a document that loads and can be written: \<open>add\<close> and then
  \<open>list\<close> both succeed; \<open>list\<close> yields one entry per alias of the mapping, the sorted
  host messages, and exactly one of them has the input alias: its URL, access key and
  secret key are the inputs and its API is \<open>S3v4\<close> when none was given, the given one
  otherwise. The alias of an entry is the key it is listed and sorted under; \<open>list\<close>
  prints each entry with its alias field aligned, which leaves the alias as it is when
  it is ASCII (of at most \<open>1e6\<close> bytes) and no other alias is longer.
\<close>

theorem add_then_list:
  assumes "isValidAlias V alias" and "isValidHostURL V url"
    and "isValidAccessKey V accessKey" and "isValidSecretKey V secretKey"
    and "opt = [] \<or> (\<exists>api. opt = [api] \<and> (api = [] \<or> isValidAPI V api))"
    and "config w = Some conf" and "writable w" and "uniqueAliases (Hosts conf)"
  shows "let added = mainConfigHost V (''add'' # alias # url # accessKey # secretKey # opt) w;
             listed = mainConfigHost V [''list''] (snd added);
             api = (if Get opt 0 = [] then ''S3v4'' else Get opt 0);
             entry = \<lparr>op = ''list'', Status = [], Alias = alias, URL = url,
                      AccessKey = accessKey, SecretKey = secretKey, API = api\<rparr>;
             hs = AList.update alias
                    \<lparr>hostConfigV8.URL = url, hostConfigV8.AccessKey = accessKey,
                     hostConfigV8.SecretKey = secretKey, hostConfigV8.API = api\<rparr> (Hosts conf);
             hosts = sortByAlias (hostMessages hs) in
         fst added = None \<and> fst listed = None \<and>
         drop (length (printed (snd added))) (printed (snd listed))
           = map (alignAlias (maxAliasLen hs)) hosts \<and>
         filter (\<lambda>h. Alias h = alias) hosts = [entry] \<and>
         ((\<forall>k \<in> fst ` set (Hosts conf). length k \<le> length alias) \<and>
          (\<forall>c \<in> set alias. (of_char c :: nat) < 128) \<and> length alias \<le> 1000000
            \<longrightarrow> alignAlias (maxAliasLen hs) entry = entry)"
proof -
  let ?api = "if Get opt 0 = [] then ''S3v4'' else Get opt 0"
  let ?cfg = "\<lparr>hostConfigV8.URL = url, hostConfigV8.AccessKey = accessKey,
               hostConfigV8.SecretKey = secretKey, hostConfigV8.API = ?api\<rparr>"
  let ?entry = "\<lparr>op = ''list'', Status = [], Alias = alias, URL = url,
                 AccessKey = accessKey, SecretKey = secretKey, API = ?api\<rparr>"
  let ?hs = "AList.update alias ?cfg (Hosts conf)"
  let ?hosts = "sortByAlias (hostMessages ?hs)"
  let ?added = "mainConfigHost V (''add'' # alias # url # accessKey # secretKey # opt) w"
  let ?listed = "mainConfigHost V [''list''] (snd ?added)"
  have add: "?added = addHost alias ?cfg w"
    using assms(1-5) by (rule mainConfigHost_add)
  have a1: "fst ?added = None"
    and a2: "config (snd ?added) = Some (conf\<lparr>Hosts := ?hs\<rparr>)"
    unfolding add using assms(6,7)
    by (simp_all add: addHost_def loadMcConfig_def saveMcConfig_def printMsg_def)
  have l: "?listed =
      (None, (snd ?added)\<lparr>printed := printed (snd ?added) @
         map (alignAlias (maxAliasLen ?hs)) ?hosts\<rparr>)"
    using listHosts_printed [OF a2] by (simp add: mainConfigHost_list)
  have d: "distinct (map fst ?hs)"
    using assms(8) by (simp add: uniqueAliases_def distinct_update)
  have "map_of ?hs alias = Some ?cfg" by (simp add: update_conv')
  then have "filter (\<lambda>h. Alias h = alias) (hostMessages ?hs) = [?entry]"
    using filter_hostMessages [OF d, of "alias" "?cfg"] by simp
  then have f: "filter (\<lambda>h. Alias h = alias) ?hosts = [?entry]"
    by (simp add: sortByAlias_def sort_key_stable)
  have e: "alignAlias (maxAliasLen ?hs) ?entry = ?entry"
    if le: "\<forall>k \<in> fst ` set (Hosts conf). length k \<le> length alias"
      and asc: "\<forall>c \<in> set alias. (of_char c :: nat) < 128"
      and sm: "length alias \<le> 1000000"
  proof -
    have "Max (insert 0 (insert (length alias) (length ` fst ` set (Hosts conf)))) = length alias"
      using le by (intro Max_eqI) auto
    then have m: "maxAliasLen ?hs = length alias"
      by (simp add: maxAliasLen_Max dom_update)
    have "runeCount alias = length alias" using asc by (rule runeCount_ascii)
    then show ?thesis using sm by (simp add: alignAlias_def m sprintf_left_star_pad)
  qed
  show ?thesis
    unfolding Let_def using a1 l f e by simp
qed

theorem add_then_list_witness:
  "fst (mainConfigHost V0 [''add'', ''myphotos'', ''https://s3.amazonaws.com'',
          ''BKIKJAA5BMMU2RHO6IBB'', ''V8f1CwQqAcwo80UEIJEjc5gVQUSSx5ohQ9GSrr12''] w0) = None \<and>
   drop 1 (printed (snd (mainConfigHost V0 [''list'']
     (snd (mainConfigHost V0 [''add'', ''myphotos'', ''https://s3.amazonaws.com'',
          ''BKIKJAA5BMMU2RHO6IBB'', ''V8f1CwQqAcwo80UEIJEjc5gVQUSSx5ohQ9GSrr12''] w0))))) =
     [\<lparr>op = ''list'', Status = [], Alias = ''myphotos'', URL = ''https://s3.amazonaws.com'',
       AccessKey = ''BKIKJAA5BMMU2RHO6IBB'',
       SecretKey = ''V8f1CwQqAcwo80UEIJEjc5gVQUSSx5ohQ9GSrr12'', API = ''S3v4''\<rparr>]"
proof -
  let ?c = "\<lparr>Version = ''8'', Hosts = []\<rparr>"
  let ?added = "mainConfigHost V0 [''add'', ''myphotos'', ''https://s3.amazonaws.com'',
          ''BKIKJAA5BMMU2RHO6IBB'', ''V8f1CwQqAcwo80UEIJEjc5gVQUSSx5ohQ9GSrr12''] w0"
  have v: "isValidAlias V0 ''myphotos''" "isValidHostURL V0 ''https://s3.amazonaws.com''"
    "isValidAccessKey V0 ''BKIKJAA5BMMU2RHO6IBB''"
    "isValidSecretKey V0 ''V8f1CwQqAcwo80UEIJEjc5gVQUSSx5ohQ9GSrr12''"
    by (simp_all add: V0_def)
  have o: "[] = [] \<or> (\<exists>api. ([]::string list) = [api] \<and> (api = [] \<or> isValidAPI V0 api))"
    by simp
  have c: "config w0 = Some ?c" and wr: "writable w0" and u: "uniqueAliases (Hosts ?c)"
    by (simp_all add: w0_def uniqueAliases_def)
  have le: "\<forall>k \<in> fst ` set (Hosts ?c). length k \<le> length ''myphotos''" by simp
  have asc: "\<forall>c \<in> set ''myphotos''. (of_char c :: nat) < 128" by simp
  have sm: "length ''myphotos'' \<le> 1000000" by simp
  let ?cfg = "\<lparr>hostConfigV8.URL = ''https://s3.amazonaws.com'',
              hostConfigV8.AccessKey = ''BKIKJAA5BMMU2RHO6IBB'',
              hostConfigV8.SecretKey = ''V8f1CwQqAcwo80UEIJEjc5gVQUSSx5ohQ9GSrr12'',
              hostConfigV8.API = ''S3v4''\<rparr>"
  let ?entry = "\<lparr>op = ''list'', Status = [], Alias = ''myphotos'',
             URL = ''https://s3.amazonaws.com'', AccessKey = ''BKIKJAA5BMMU2RHO6IBB'',
             SecretKey = ''V8f1CwQqAcwo80UEIJEjc5gVQUSSx5ohQ9GSrr12'', API = ''S3v4''\<rparr>"
  let ?m = "maxAliasLen (AList.update ''myphotos'' ?cfg (Hosts ?c))"
  have g: "(if Get [] 0 = [] then ''S3v4'' else Get [] 0) = ''S3v4''" by (simp add: Get_def)
  note t = add_then_list [OF v o c wr u, unfolded Let_def g]
  have t1: "fst ?added = None" using t by blast
  have t3: "drop (length (printed (snd ?added)))
              (printed (snd (mainConfigHost V0 [''list''] (snd ?added)))) =
            map (alignAlias ?m)
              (sortByAlias (hostMessages (AList.update ''myphotos'' ?cfg (Hosts ?c))))"
    using t by blast
  have t5: "alignAlias ?m ?entry = ?entry" using t le asc sm by blast
  have n: "length (printed (snd ?added)) = 1"
    by (simp add: mainConfigHost_add [OF v o] addHost_def loadMcConfig_def saveMcConfig_def
        printMsg_def w0_def)
  have h: "sortByAlias (hostMessages (AList.update ''myphotos'' ?cfg (Hosts ?c))) = [?entry]"
    by (simp add: sortByAlias_def hostMessages_def)
  have "drop 1 (printed (snd (mainConfigHost V0 [''list''] (snd ?added)))) = [?entry]"
    using t3 unfolding n h by (simp only: list.map t5)
  then show ?thesis using t1 by blast
qed

text \<open>
  The alias field as printed: after \<open>add accel\<close> to a document that holds \<open>myphotos\<close>,
  \<open>list\<close> prints the entry of \<open>accel\<close> with three spaces behind the alias, in line with
  the longer one.
\<close>

lemma add_then_list_aligned_example:
  "drop 1 (printed (snd (mainConfigHost V0 [''list'']
     (snd (mainConfigHost V0 [''add'', ''accel'', ''https://s3-accelerate.amazonaws.com'',
          ''BKIKJAA5BMMU2RHO6IBB'', ''V8f1CwQqAcwo80UEIJEjc5gVQUSSx5ohQ9GSrr12''] w1))))) =
     [\<lparr>op = ''list'', Status = [], Alias = ''accel   '',
       URL = ''https://s3-accelerate.amazonaws.com'',
       AccessKey = ''BKIKJAA5BMMU2RHO6IBB'',
       SecretKey = ''V8f1CwQqAcwo80UEIJEjc5gVQUSSx5ohQ9GSrr12'', API = ''S3v4''\<rparr>,
      \<lparr>op = ''list'', Status = [], Alias = ''myphotos'', URL = ''https://s3.amazonaws.com'',
       AccessKey = ''BKIKJAA5BMMU2RHO6IBB'',
       SecretKey = ''V8f1CwQqAcwo80UEIJEjc5gVQUSSx5ohQ9GSrr12'', API = ''S3v4''\<rparr>] \<and>
   ''accel   '' \<noteq> ''accel''"
proof -
  have "drop 1 (printed (snd (mainConfigHost V0 [''list'']
     (snd (mainConfigHost V0 [''add'', ''accel'', ''https://s3-accelerate.amazonaws.com'',
          ''BKIKJAA5BMMU2RHO6IBB'', ''V8f1CwQqAcwo80UEIJEjc5gVQUSSx5ohQ9GSrr12''] w1))))) =
     [\<lparr>op = ''list'', Status = [], Alias = ''accel   '',
       URL = ''https://s3-accelerate.amazonaws.com'',
       AccessKey = ''BKIKJAA5BMMU2RHO6IBB'',
       SecretKey = ''V8f1CwQqAcwo80UEIJEjc5gVQUSSx5ohQ9GSrr12'', API = ''S3v4''\<rparr>,
      \<lparr>op = ''list'', Status = [], Alias = ''myphotos'', URL = ''https://s3.amazonaws.com'',
       AccessKey = ''BKIKJAA5BMMU2RHO6IBB'',
       SecretKey = ''V8f1CwQqAcwo80UEIJEjc5gVQUSSx5ohQ9GSrr12'', API = ''S3v4''\<rparr>]"
    by code_simp
  moreover have "''accel   '' \<noteq> ''accel''" by simp
  ultimately show ?thesis by blast
qed

end
